theory Spec2Isabelle
  imports Main
begin

chapter \<open>The program\<close>

section \<open>Line tables (line-table.ts, and the older source-maps.ts)\<close>

text \<open>
  JavaScript numbers are modelled as integers, with one extra value for the result of
  arithmetic on \<^verbatim>\<open>undefined\<close>: reading an array outside its bounds gives
  \<^verbatim>\<open>undefined\<close>, and \<^verbatim>\<open>offset - undefined\<close> is \<^verbatim>\<open>NaN\<close>. The numbers of the
  code are doubles, whose arithmetic is that of the integers as long as the values stay
  below \<open>2 ^ 53\<close>, as the offsets within a text do; from there on the code rounds.
\<close>

datatype number = Num int | NaN

record Position =
  line :: int
  column :: number

definition LINE_BREAK :: char where
  "LINE_BREAK = CHR 0x0A"

text \<open>
  The construction loop of \<^verbatim>\<open>createLineTable\<close>:
  \<^verbatim>\<open>for (let i = 0; i < source.length; i++) if (source.charCodeAt(i) === LINE_BREAK) table.push(i + 1)\<close>.
  The first argument is the loop index \<^verbatim>\<open>i\<close>, the second the part of the source from
  index \<^verbatim>\<open>i\<close> on, the third the table built so far.
\<close>

fun scan_lines :: "nat \<Rightarrow> string \<Rightarrow> int list \<Rightarrow> int list" where
  "scan_lines i [] table = table"
| "scan_lines i (c # cs) table =
     scan_lines (i + 1) cs (if c = LINE_BREAK then table @ [int i + 1] else table)"

definition createLineTable :: "string \<Rightarrow> int list" where
  "createLineTable source = scan_lines 0 source [0]"

text \<open>The older \<^verbatim>\<open>computeLineTable\<close> of source-maps.ts has the same body.\<close>

definition computeLineTable :: "string \<Rightarrow> int list" where
  "computeLineTable text = scan_lines 0 text [0]"

text \<open>
  \<^verbatim>\<open>table[i]\<close>: the entry, or \<^verbatim>\<open>undefined\<close> (here \<open>None\<close>) outside the array.
\<close>

definition table_at :: "int list \<Rightarrow> int \<Rightarrow> int option" where
  "table_at table i =
     (if 0 \<le> i \<and> i < int (length table) then Some (table ! nat i) else None)"

text \<open>
  \<^verbatim>\<open>table[i] <= offset\<close>: a comparison with \<^verbatim>\<open>undefined\<close> is false.
\<close>

definition entry_le :: "int list \<Rightarrow> nat \<Rightarrow> int \<Rightarrow> bool" where
  "entry_le table i offset =
     (case table_at table (int i) of Some v \<Rightarrow> v \<le> offset | None \<Rightarrow> False)"

text \<open>
  The binary search of \<^verbatim>\<open>find\<close>, as a loop over \<^verbatim>\<open>line\<close> (here \<open>ln\<close>) and
  \<^verbatim>\<open>count\<close>.
  The last argument is not in the source: it records, in order, every index at which the
  loop has read the table, so that the reads can be shown to stay inside it.
\<close>

function search :: "int list \<Rightarrow> int \<Rightarrow> nat \<Rightarrow> nat \<Rightarrow> nat list \<Rightarrow> nat \<times> nat list" where
  "search table offset ln count probes =
     (if count > 0 then
        (let mid = count div 2;
             i = ln + mid
         in if entry_le table i offset
            then search table offset (i + 1) (count - mid - 1) (probes @ [i])
            else search table offset ln mid (probes @ [i]))
      else (ln, probes))"
  by pat_completeness auto
termination
  by (relation "measure (\<lambda>(table, offset, ln, count, probes). count)") auto

declare search.simps [simp del]

text \<open>
  \<^verbatim>\<open>find(offset)\<close>: the loop, then \<^verbatim>\<open>line -= 1\<close>, the read of
  \<^verbatim>\<open>table[line]\<close> and the one-based result.
\<close>

definition find_pos :: "int list \<Rightarrow> int \<Rightarrow> Position" where
  "find_pos table offset =
     (let ln = int (fst (search table offset 0 (length table) [])) - 1;
          col = (case table_at table ln of
                   Some start \<Rightarrow> Num (offset - start)
                 | None \<Rightarrow> NaN)
      in \<lparr>line = ln + 1,
          column = (case col of Num c \<Rightarrow> Num (c + 1) | NaN \<Rightarrow> NaN)\<rparr>)"

text \<open>Every index at which \<^verbatim>\<open>find(offset)\<close> reads the table, the last read included.\<close>

definition find_reads :: "int list \<Rightarrow> int \<Rightarrow> int list" where
  "find_reads table offset =
     (let r = search table offset 0 (length table) []
      in map int (snd r) @ [int (fst r) - 1])"


section \<open>The syntax tree (ast.ts)\<close>

text \<open>
  The offsets of one named field of a node: \<^verbatim>\<open>src\<close> is always there, \<^verbatim>\<open>dst\<close> only
  after a serialization that tracks locations.
\<close>

record Offsets =
  src :: "int \<times> int"
  dst :: "(int \<times> int) option"

text \<open>
  Modelled from the spec: the node types of ast.ts, which is not among the sources. A node
  is a comment, a declaration, a rule, an at-rule (whose \<^verbatim>\<open>nodes\<close> are absent when it has
  no body) or an at-root; each carries \<^verbatim>\<open>offsets\<close>, an object from field names to
  \<^verbatim>\<open>Offsets\<close>, kept here as the list of its entries in the order of the object's keys.
\<close>

datatype AstNode =
    Comment "(string \<times> Offsets) list" string
  | Declaration "(string \<times> Offsets) list" string string bool
  | Rule "(string \<times> Offsets) list" string "AstNode list"
  | AtRule "(string \<times> Offsets) list" string string "AstNode list option"
  | AtRoot "(string \<times> Offsets) list" "AstNode list"

fun offsets_of :: "AstNode \<Rightarrow> (string \<times> Offsets) list" where
  "offsets_of (Comment offs v) = offs"
| "offsets_of (Declaration offs p v i) = offs"
| "offsets_of (Rule offs sel ns) = offs"
| "offsets_of (AtRule offs n ps ns) = offs"
| "offsets_of (AtRoot offs ns) = offs"

fun nodes_of :: "AstNode \<Rightarrow> AstNode list" where
  "nodes_of (Comment offs v) = []"
| "nodes_of (Declaration offs p v i) = []"
| "nodes_of (Rule offs sel ns) = ns"
| "nodes_of (AtRule offs n ps None) = []"
| "nodes_of (AtRule offs n ps (Some ns)) = ns"
| "nodes_of (AtRoot offs ns) = ns"

text \<open>\<^verbatim>\<open>node.offsets.property\<close> and the like: the field's offsets, or \<^verbatim>\<open>undefined\<close>.\<close>

definition offsets_field :: "AstNode \<Rightarrow> string \<Rightarrow> Offsets option" where
  "offsets_field node field = map_of (offsets_of node) field"

text \<open>
  Modelled from the spec: \<^verbatim>\<open>walk\<close> of ast.ts, which is not among the sources: a
  pre-order depth-first traversal. The visitors of this development return nothing, which
  asks the walk to continue into the children of every node; a visitor changes a state of
  its own (the array it pushes to).
\<close>

function walk :: "AstNode list \<Rightarrow> (AstNode \<Rightarrow> 's \<Rightarrow> 's) \<Rightarrow> 's \<Rightarrow> 's" where
  "walk [] visit s = s"
| "walk (node # rest) visit s = walk rest visit (walk (nodes_of node) visit (visit node s))"
  by pat_completeness auto
termination
proof (relation "measure (\<lambda>(ns, visit, s). size_list size ns)")
  fix node :: AstNode and rest :: "AstNode list" and visit :: "AstNode \<Rightarrow> 's \<Rightarrow> 's" and s :: 's
  show "((nodes_of node, visit, visit node s), (node # rest, visit, s))
          \<in> measure (\<lambda>(ns, visit, s). size_list size ns)"
    by (cases node rule: nodes_of.cases) simp_all
qed simp_all

section \<open>Source maps (source-map.ts)\<close>

record DecodedSource =
  url :: "string option"
  content :: "string option"
  ignore :: bool

record DecodedMapping =
  generatedLine :: int
  generatedColumn :: number
  originalLine :: int
  originalColumn :: number
  originalSource :: "DecodedSource option"
  name :: "string option"

record DecodedSourceMap =
  "file" :: "string option"
  sources :: "DecodedSource list"
  mappings :: "DecodedMapping list"

text \<open>The visitor of \<^verbatim>\<open>createSourceMap\<close>: what it pushes to \<^verbatim>\<open>groups\<close> for a node.\<close>

fun collect_groups :: "AstNode \<Rightarrow> Offsets option list \<Rightarrow> Offsets option list" where
  "collect_groups (Declaration offs p v i) groups =
     groups @ [map_of offs ''property''] @ [map_of offs ''value'']"
| "collect_groups (Rule offs sel ns) groups =
     groups @ [map_of offs ''selector''] @ [map_of offs ''body'']"
| "collect_groups (AtRule offs n ps ns) groups =
     groups @ [map_of offs ''name''] @ [map_of offs ''params''] @ [map_of offs ''body'']"
| "collect_groups (Comment offs v) groups =
     groups @ [map_of offs ''value'']"
| "collect_groups (AtRoot offs ns) groups =
     groups @ [map_of offs ''body'']"

text \<open>
  The loop \<^verbatim>\<open>for (let group of groups)\<close>: the mappings pushed so far are the last
  argument.
\<close>

fun emit_mappings ::
  "int list \<Rightarrow> int list \<Rightarrow> Offsets option list \<Rightarrow> DecodedMapping list \<Rightarrow> DecodedMapping list"
where
  "emit_mappings originalTable generatedTable [] ms = ms"
| "emit_mappings originalTable generatedTable (None # groups) ms =
     emit_mappings originalTable generatedTable groups ms"
| "emit_mappings originalTable generatedTable (Some grp # groups) ms =
     (case dst grp of
        None \<Rightarrow> emit_mappings originalTable generatedTable groups ms
      | Some d \<Rightarrow>
          (let originalStart = find_pos originalTable (fst (src grp));
               generatedStart = find_pos generatedTable (fst d);
               ms1 = ms @ [\<lparr>generatedLine = line generatedStart,
                            generatedColumn = column generatedStart,
                            originalLine = line originalStart,
                            originalColumn = column originalStart,
                            originalSource = None,
                            name = None\<rparr>];
               originalEnd = find_pos originalTable (snd (src grp));
               generatedEnd = find_pos generatedTable (snd d);
               ms2 = ms1 @ [\<lparr>generatedLine = line generatedEnd,
                             generatedColumn = column generatedEnd,
                             originalLine = line originalEnd,
                             originalColumn = column originalEnd,
                             originalSource = None,
                             name = None\<rparr>]
           in emit_mappings originalTable generatedTable groups ms2))"

text \<open>Subtraction and \<^verbatim>\<open>===\<close> on numbers: \<^verbatim>\<open>NaN\<close> absorbs, and equals nothing.\<close>

fun number_minus :: "number \<Rightarrow> number \<Rightarrow> number" where
  "number_minus (Num a) (Num b) = Num (a - b)"
| "number_minus a b = NaN"

fun number_eq :: "number \<Rightarrow> number \<Rightarrow> bool" where
  "number_eq (Num a) (Num b) = (a = b)"
| "number_eq a b = False"

text \<open>The comparison function handed to \<^verbatim>\<open>sort\<close>.\<close>

definition compare_generated :: "DecodedMapping \<Rightarrow> DecodedMapping \<Rightarrow> number" where
  "compare_generated a b =
     (if generatedLine a = generatedLine b
      then number_minus (generatedColumn a) (generatedColumn b)
      else Num (generatedLine a - generatedLine b))"

text \<open>
  \<^verbatim>\<open>Array.prototype.sort\<close> belongs to the language, not to the repository. ECMAScript
  (2019 and later) makes it stable and reads a comparison result \<^verbatim>\<open>NaN\<close> as \<open>0\<close>;
  it is modelled as the stable insertion sort, which gives the result of every stable sort
  when the comparison function is a consistent order.
\<close>

fun sort_insert :: "('a \<Rightarrow> 'a \<Rightarrow> number) \<Rightarrow> 'a \<Rightarrow> 'a list \<Rightarrow> 'a list" where
  "sort_insert cmp x [] = [x]"
| "sort_insert cmp x (y # ys) =
     (if (case cmp x y of Num v \<Rightarrow> v \<le> 0 | NaN \<Rightarrow> True)
      then x # y # ys
      else y # sort_insert cmp x ys)"

definition array_sort :: "('a \<Rightarrow> 'a \<Rightarrow> number) \<Rightarrow> 'a list \<Rightarrow> 'a list" where
  "array_sort cmp xs = foldr (sort_insert cmp) xs []"

text \<open>
  What a callback returns to \<^verbatim>\<open>Array.prototype.filter\<close>: a boolean, or
  \<^verbatim>\<open>undefined\<close> when it ends with a bare \<^verbatim>\<open>return\<close>. \<^verbatim>\<open>filter\<close> keeps an
  element when the returned value is truthy, and \<^verbatim>\<open>undefined\<close> is not.
\<close>

datatype returned = Bool bool | Undefined

fun truthy :: "returned \<Rightarrow> bool" where
  "truthy (Bool b) = b"
| "truthy Undefined = False"

text \<open>
  \<^verbatim>\<open>Array.prototype.filter\<close> with a callback that reads and writes a variable of the
  enclosing function (here \<^verbatim>\<open>last\<close>): the callback takes the variable's value and
  returns the new one beside its result.
\<close>

fun array_filter :: "('s \<Rightarrow> 'a \<Rightarrow> returned \<times> 's) \<Rightarrow> 's \<Rightarrow> 'a list \<Rightarrow> 'a list" where
  "array_filter callback s [] = []"
| "array_filter callback s (x # xs) =
     (case callback s x of
        (r, s') \<Rightarrow> (if truthy r then [x] else []) @ array_filter callback s' xs)"

text \<open>
  The callback that removes duplicate mappings (\<open>lst\<close> is the source's \<^verbatim>\<open>last\<close>):
  \<^verbatim>\<open>if (last && last.generatedLine === mapping.generatedLine && last.generatedColumn === mapping.generatedColumn) { return false }  last = mapping;  return\<close>.
\<close>

definition remove_duplicate ::
  "DecodedMapping option \<Rightarrow> DecodedMapping \<Rightarrow> returned \<times> DecodedMapping option" where
  "remove_duplicate lst mapping =
     (if (case lst of
            None \<Rightarrow> False
          | Some l \<Rightarrow> generatedLine l = generatedLine mapping
                     \<and> number_eq (generatedColumn l) (generatedColumn mapping))
      then (Bool False, lst)
      else (Undefined, Some mapping))"

text \<open>The mappings as pushed by the loop over the groups, before they are sorted.\<close>

definition emitted :: "string \<Rightarrow> string \<Rightarrow> AstNode list \<Rightarrow> DecodedMapping list" where
  "emitted original generated ast =
     (let originalTable = createLineTable original;
          generatedTable = createLineTable generated;
          groups = walk ast collect_groups []
      in emit_mappings originalTable generatedTable groups [])"

definition createSourceMap :: "string \<Rightarrow> string \<Rightarrow> AstNode list \<Rightarrow> DecodedSourceMap" where
  "createSourceMap original generated ast =
     (let m = \<lparr>file = None,
                sources = [\<lparr>url = None, content = None, ignore = False\<rparr>],
                mappings = []\<rparr>;
          m = m\<lparr>mappings := emitted original generated ast\<rparr>;
          m = m\<lparr>mappings := array_sort compare_generated (mappings m)\<rparr>;
          m = m\<lparr>mappings := array_filter remove_duplicate None (mappings m)\<rparr>
      in m)"

section \<open>The translation map (translation-map.ts)\<close>

type_synonym Translation = "Position \<times> Position \<times> Position option \<times> Position option"

text \<open>
  The loop \<^verbatim>\<open>for (let [name, offsets] of Object.entries(node.offsets))\<close>; the record
  \<^verbatim>\<open>translations\<close> built so far is the last argument.
\<close>

fun translate_entries ::
  "int list \<Rightarrow> int list \<Rightarrow> (string \<times> Offsets) list \<Rightarrow> (string \<rightharpoonup> Translation)
     \<Rightarrow> (string \<rightharpoonup> Translation)"
where
  "translate_entries originalTable generatedTable [] translations = translations"
| "translate_entries originalTable generatedTable ((field, offs) # entries) translations =
     translate_entries originalTable generatedTable entries
       (translations(field \<mapsto>
          (find_pos originalTable (fst (src offs)),
           find_pos originalTable (snd (src offs)),
           (case dst offs of Some d \<Rightarrow> Some (find_pos generatedTable (fst d)) | None \<Rightarrow> None),
           (case dst offs of Some d \<Rightarrow> Some (find_pos generatedTable (snd d)) | None \<Rightarrow> None))))"

definition createTranslationMap :: "string \<Rightarrow> string \<Rightarrow> AstNode \<Rightarrow> (string \<rightharpoonup> Translation)" where
  "createTranslationMap original generated =
     (let originalTable = createLineTable original;
          generatedTable = createLineTable generated
      in (\<lambda>node. translate_entries originalTable generatedTable (offsets_of node) Map.empty))"

section \<open>The older source map (source-maps.ts)\<close>

record Mapping =
  original :: Position
  generated :: Position

text \<open>
  \<^verbatim>\<open>groups\<close> is a \<^verbatim>\<open>Set\<close> here. A set compares objects by reference, and every node
  owns the objects of its \<^verbatim>\<open>offsets\<close> (the tree shares nothing), so that an object is
  never added twice; \<^verbatim>\<open>undefined\<close> is one value and is kept once. A set is iterated in
  the order of insertion. A tree in which two nodes share one object of offsets is
  outside this model, which would count the object twice.
\<close>

definition set_add :: "Offsets option list \<Rightarrow> Offsets option \<Rightarrow> Offsets option list" where
  "set_add groups g =
     (case g of
        None \<Rightarrow> (if None \<in> set groups then groups else groups @ [None])
      | Some grp \<Rightarrow> groups @ [Some grp])"

fun collect_group_set :: "AstNode \<Rightarrow> Offsets option list \<Rightarrow> Offsets option list" where
  "collect_group_set (Declaration offs p v i) groups =
     set_add (set_add groups (map_of offs ''property'')) (map_of offs ''value'')"
| "collect_group_set (Rule offs sel ns) groups =
     set_add (set_add groups (map_of offs ''selector'')) (map_of offs ''body'')"
| "collect_group_set (AtRule offs n ps ns) groups =
     set_add (set_add (set_add groups (map_of offs ''name'')) (map_of offs ''params''))
       (map_of offs ''body'')"
| "collect_group_set (Comment offs v) groups =
     set_add groups (map_of offs ''value'')"
| "collect_group_set (AtRoot offs ns) groups =
     set_add groups (map_of offs ''body'')"

fun push_mappings ::
  "int list \<Rightarrow> int list \<Rightarrow> Offsets option list \<Rightarrow> Mapping list \<Rightarrow> Mapping list"
where
  "push_mappings originalMap generatedMap [] tmp = tmp"
| "push_mappings originalMap generatedMap (None # groups) tmp =
     push_mappings originalMap generatedMap groups tmp"
| "push_mappings originalMap generatedMap (Some grp # groups) tmp =
     (case dst grp of
        None \<Rightarrow> push_mappings originalMap generatedMap groups tmp
      | Some d \<Rightarrow>
          (let originalStart = find_pos originalMap (fst (src grp));
               originalEnd = find_pos originalMap (snd (src grp));
               generatedStart = find_pos generatedMap (fst d);
               generatedEnd = find_pos generatedMap (snd d)
           in push_mappings originalMap generatedMap groups
                (tmp @ [\<lparr>original = originalStart, generated = originalEnd\<rparr>,
                        \<lparr>original = generatedStart, generated = generatedEnd\<rparr>])))"

text \<open>\<^verbatim>\<open>createSourceMap\<close> of source-maps.ts, which returns the pushed mappings as they are.\<close>

definition createSourceMap_legacy :: "string \<Rightarrow> string \<Rightarrow> AstNode list \<Rightarrow> Mapping list" where
  "createSourceMap_legacy original_text generated_text ast =
     (let originalMap = computeLineTable original_text;
          generatedMap = computeLineTable generated_text;
          groups = walk ast collect_group_set []
      in push_mappings originalMap generatedMap groups [])"

section \<open>The parser (css-parser.ts)\<close>

text \<open>
  Modelled from the spec: \<^verbatim>\<open>parse\<close> of css-parser.ts, which is not among the sources;
  only its tests (css-parser.test.ts) are. The definitions of this section follow the
  grammar rules and the error kinds of the spec, and the tests where they decide what the
  spec leaves open. The parser is a single scan over the characters that are left, with an
  explicit stack of the blocks that are open. Offsets are not recorded: every node is built
  with no \<^verbatim>\<open>offsets\<close> entry.
\<close>

text \<open>Modelled from the spec: the characters the scan tells apart.\<close>

definition BACKSLASH :: char where "BACKSLASH = CHR 0x5C"
definition SLASH :: char where "SLASH = CHR 0x2F"
definition ASTERISK :: char where "ASTERISK = CHR 0x2A"
definition COLON :: char where "COLON = CHR 0x3A"
definition SEMICOLON :: char where "SEMICOLON = CHR 0x3B"
definition SPACE :: char where "SPACE = CHR 0x20"
definition TAB :: char where "TAB = CHR 0x09"
definition CARRIAGE_RETURN :: char where "CARRIAGE_RETURN = CHR 0x0D"
definition OPEN_CURLY :: char where "OPEN_CURLY = CHR 0x7B"
definition CLOSE_CURLY :: char where "CLOSE_CURLY = CHR 0x7D"
definition AT_SIGN :: char where "AT_SIGN = CHR 0x40"
definition EXCLAMATION_MARK :: char where "EXCLAMATION_MARK = CHR 0x21"




text \<open>Modelled from the spec: white space, and \<^verbatim>\<open>trim\<close> of a string.\<close>

definition is_space :: "char \<Rightarrow> bool" where
  "is_space c \<longleftrightarrow> c = SPACE \<or> c = LINE_BREAK \<or> c = TAB \<or> c = CARRIAGE_RETURN"

definition trim :: "string \<Rightarrow> string" where
  "trim s = rev (dropWhile is_space (rev (dropWhile is_space s)))"


text \<open>Modelled from the spec: \<^verbatim>\<open>startsWith\<close> and \<^verbatim>\<open>endsWith\<close> of a string.\<close>

fun starts_with :: "string \<Rightarrow> string \<Rightarrow> bool" where
  "starts_with [] s = True"
| "starts_with (p # ps) [] = False"
| "starts_with (p # ps) (c # cs) = (p = c \<and> starts_with ps cs)"

definition ends_with :: "string \<Rightarrow> string \<Rightarrow> bool" where
  "ends_with p s \<longleftrightarrow> starts_with (rev p) (rev s)"










text \<open>
  Modelled from the spec: a declaration from the text of a statement: the property before
  the first \<^verbatim>\<open>:\<close>, the value after it, both trimmed, and a trailing
  \<^verbatim>\<open>!important\<close> taken off the value and recorded.
\<close>

definition parseDeclaration :: "string \<Rightarrow> AstNode" where
  "parseDeclaration buffer =
     (let property = takeWhile (\<lambda>c. c \<noteq> COLON) buffer;
          v = trim (drop 1 (dropWhile (\<lambda>c. c \<noteq> COLON) buffer))
      in if ends_with ''!important'' v
         then Declaration [] (trim property) (trim (take (length v - 10) v)) True
         else Declaration [] (trim property) v False)"

text \<open>
  Modelled from the spec: an at-rule with no body from the text of a statement: the name
  up to the first white space, and the parameters after it.
\<close>

definition parseAtRule :: "string \<Rightarrow> AstNode" where
  "parseAtRule buffer =
     AtRule [] (takeWhile (\<lambda>c. \<not> is_space c) (trim buffer))
               (trim (dropWhile (\<lambda>c. \<not> is_space c) (trim buffer))) None"

text \<open>
  Modelled from the spec: the state of the scan. \<^verbatim>\<open>root\<close> holds the nodes of the top
  level, \<^verbatim>\<open>licenseComments\<close> the license comments hoisted so far, \<^verbatim>\<open>stack\<close> the blocks
  that are open, innermost first, each with its prelude and the nodes it has so far, and
  \<^verbatim>\<open>buffer\<close> the text of the statement being read.
\<close>

record ParseState =
  root :: "AstNode list"
  licenseComments :: "AstNode list"
  stack :: "(string \<times> AstNode list) list"
  buffer :: string


text \<open>Modelled from the spec: a node is added to the innermost open block, or to the root.\<close>

definition add_node :: "AstNode \<Rightarrow> ParseState \<Rightarrow> ParseState" where
  "add_node node st =
     (case stack st of
        [] \<Rightarrow> st\<lparr>root := root st @ [node]\<rparr>
      | (prelude, nodes) # outer \<Rightarrow> st\<lparr>stack := (prelude, nodes @ [node]) # outer\<rparr>)"




text \<open>
  Modelled from the spec: \<^verbatim>\<open>{\<close> opens a block whose prelude is the text read so far;
  \<^verbatim>\<open>}\<close> ends the statement being read and closes the innermost open block, which
  becomes a node of the block around it, or throws when no block is open.
\<close>

definition open_block :: "ParseState \<Rightarrow> ParseState" where
  "open_block st = st\<lparr>stack := (trim (buffer st), []) # stack st, buffer := []\<rparr>"





section \<open>The serializer (ast.ts)\<close>




section \<open>Notions used to state the properties\<close>

text \<open>The buffer \<^verbatim>\<open>"a\nbb\nccc"\<close> of the spec's line-table example.\<close>

definition example_buffer :: string where
  "example_buffer =
     [CHR ''a'', CHR 0x0A, CHR ''b'', CHR ''b'', CHR 0x0A, CHR ''c'', CHR ''c'', CHR ''c'']"

text \<open>
  The \<^verbatim>\<open>\r\n\<close> version of a text: every line break is preceded by a carriage return.
  The character at offset \<open>i\<close> of the text is at offset \<open>crlf_offset s i\<close> of that version
  (for a line break, this is where its pair \<^verbatim>\<open>\r\n\<close> starts): one further for each line
  break before it.
\<close>

fun crlf :: "string \<Rightarrow> string" where
  "crlf [] = []"
| "crlf (c # cs) = (if c = LINE_BREAK then [CARRIAGE_RETURN, LINE_BREAK] else [c]) @ crlf cs"

definition crlf_offset :: "string \<Rightarrow> nat \<Rightarrow> nat" where
  "crlf_offset s i = i + length (filter (\<lambda>c. c = LINE_BREAK) (take i s))"

definition crlf_example :: string where
  "crlf_example = [CHR ''a'', CHR 0x0D, CHR 0x0A, CHR ''b'', CHR ''b'', CHR 0x0D, CHR 0x0A, CHR ''c'', CHR ''c'', CHR ''c'']"

text \<open>
  The license comment \<^verbatim>\<open>/*! foo */\<close> of the test "comment, single line": the source
  text, the text it is serialized to, and its tree, whose only field \<^verbatim>\<open>value\<close> spans the
  offsets 0 to 10 of both texts.
\<close>

definition comment_source :: string where
  "comment_source = ''/*! foo */''"

definition comment_css :: string where
  "comment_css = ''/*! foo */'' @ [CHR 0x0A]"

definition comment_ast :: "AstNode list" where
  "comment_ast = [Comment [(''value'', \<lparr>src = (0, 10), dst = Some (0, 10)\<rparr>)] ''! foo '']"

text \<open>
  The at-rule \<^verbatim>\<open>@layer foo,     bar;\<close> of the test "at rules, bodyless, single line",
  with the offsets that test reports: the name at \<open>1:1-1:7\<close> and the parameters at
  \<open>1:8-1:16\<close> of the generated text, both from \<open>1:1-1:1\<close> of the source, and no body.
\<close>

definition layer_source :: string where
  "layer_source = ''@layer foo,     bar;''"

definition layer_css :: string where
  "layer_css = ''@layer foo, bar;'' @ [CHR 0x0A]"

definition layer_ast :: "AstNode list" where
  "layer_ast = [AtRule [(''name'', \<lparr>src = (0, 0), dst = Some (0, 6)\<rparr>),
                        (''params'', \<lparr>src = (0, 0), dst = Some (7, 15)\<rparr>)]
                  ''@layer'' ''foo, bar'' None]"

text \<open>
  The two records the spec asks for a group that has a \<^verbatim>\<open>dst\<close>: the original start with
  the generated start, and the original end with the generated end; no record for a group
  that is \<^verbatim>\<open>undefined\<close> or has no \<^verbatim>\<open>dst\<close>.
\<close>

definition decoded :: "Position \<Rightarrow> Position \<Rightarrow> DecodedMapping" where
  "decoded orig gen =
     \<lparr>generatedLine = line gen, generatedColumn = column gen,
      originalLine = line orig, originalColumn = column orig,
      originalSource = None, name = None\<rparr>"

definition start_end_records ::
  "int list \<Rightarrow> int list \<Rightarrow> Offsets option \<Rightarrow> DecodedMapping list" where
  "start_end_records originalTable generatedTable g =
     (case g of
        None \<Rightarrow> []
      | Some grp \<Rightarrow>
          (case dst grp of
             None \<Rightarrow> []
           | Some d \<Rightarrow>
               [decoded (find_pos originalTable (fst (src grp))) (find_pos generatedTable (fst d)),
                decoded (find_pos originalTable (snd (src grp))) (find_pos generatedTable (snd d))]))"


subsection \<open>The text of comments and quoted literals\<close>

text \<open>
  The interior of a closed comment: it does not hold \<^verbatim>\<open>*/\<close>, apart from places where
  a backslash comes just before the \<^verbatim>\<open>*\<close>, and a backslash in it always has a
  character after it. The content of a quoted literal with the quote \<open>q\<close>: it holds
  neither \<open>q\<close> nor a line break, apart from places just after a backslash, and a backslash
  in it always has a character after it. Both are read off the text alone.
\<close>

fun comment_body :: "string \<Rightarrow> bool" where
  "comment_body (c # d # cs) =
     (if c = BACKSLASH then comment_body cs
      else \<not> (c = ASTERISK \<and> d = SLASH) \<and> comment_body (d # cs))"
| "comment_body [c] = (c \<noteq> BACKSLASH)"
| "comment_body [] = True"


text \<open>
  A comment is a license comment when its interior starts with \<^verbatim>\<open>!\<close>.
\<close>

definition is_license :: "string \<Rightarrow> bool" where
  "is_license interior \<longleftrightarrow> (case interior of [] \<Rightarrow> False | c # cs \<Rightarrow> c = EXCLAMATION_MARK)"

subsection \<open>Documents\<close>



text \<open>
  A document as it is written. The text of a statement, a selector or another prelude
  is a list of pieces: words of plain characters, quoted literals, escaped characters,
  and gaps; a gap is a run of white space characters and comments. An item is a statement
  closed by \<^verbatim>\<open>;\<close>, or a block: a prelude, \<^verbatim>\<open>{\<close>, the items of its body, the
  pieces of a last statement that has no \<^verbatim>\<open>;\<close> (or only a gap, or nothing), and
  \<^verbatim>\<open>}\<close>.
\<close>

datatype gap_item = Blank char | Remark string

datatype piece = Word string | Literal char string | Escaped char | Gap "gap_item list"

datatype item = Statement "piece list" | Block "piece list" "item list" "piece list"

text \<open>
  The characters of a document.
\<close>

fun print_gap_item :: "gap_item \<Rightarrow> string" where
  "print_gap_item (Blank c) = [c]"
| "print_gap_item (Remark i) = [SLASH, ASTERISK] @ i @ [ASTERISK, SLASH]"

fun print_piece :: "piece \<Rightarrow> string" where
  "print_piece (Word w) = w"
| "print_piece (Literal q t) = [q] @ t @ [q]"
| "print_piece (Escaped c) = [BACKSLASH, c]"
| "print_piece (Gap g) = concat (map print_gap_item g)"

definition print_pieces :: "piece list \<Rightarrow> string" where
  "print_pieces ps = concat (map print_piece ps)"

fun print_item :: "item \<Rightarrow> string" where
  "print_item (Statement ps) = print_pieces ps @ [SEMICOLON]"
| "print_item (Block pre items lst) =
     print_pieces pre @ [OPEN_CURLY] @ concat (map print_item items) @ print_pieces lst
     @ [CLOSE_CURLY]"

definition print_items :: "item list \<Rightarrow> string" where
  "print_items items = concat (map print_item items)"

text \<open>
  What is asked of a document: white space in gaps is white space, comments and
  literals are closed by their own last characters only, words are not empty, and the
  first word of a statement or prelude (\<open>fresh\<close>: nothing but gaps before it) is not
  dashed.
\<close>

fun wf_gap_item :: "gap_item \<Rightarrow> bool" where
  "wf_gap_item (Blank c) = is_space c"
| "wf_gap_item (Remark i) = comment_body i"



text \<open>
  The text a list of pieces stands for, after the text \<open>b\<close> so far: the words, literals
  and escaped characters as they are, in order; a gap that holds white space is one space,
  unless it comes first or after white space; a gap of comments only is nothing. The
  comments play no part in it.
\<close>

fun is_blank :: "gap_item \<Rightarrow> bool" where
  "is_blank (Blank c) = True"
| "is_blank (Remark i) = False"

definition spaced :: "string \<Rightarrow> string" where
  "spaced b = (if b = [] \<or> is_space (last b) then b else b @ [SPACE])"

fun text_of :: "string \<Rightarrow> piece list \<Rightarrow> string" where
  "text_of b [] = b"
| "text_of b (Word w # ps) = text_of (b @ w) ps"
| "text_of b (Literal q t # ps) = text_of (b @ [q] @ t @ [q]) ps"
| "text_of b (Escaped c # ps) = text_of (b @ [BACKSLASH, c]) ps"
| "text_of b (Gap g # ps) = text_of (if list_ex is_blank g then spaced b else b) ps"

text \<open>
  The interiors of the comments of a list of pieces and of an item, in the order in
  which they are written.
\<close>

fun gap_remarks :: "gap_item list \<Rightarrow> string list" where
  "gap_remarks [] = []"
| "gap_remarks (Blank c # g) = gap_remarks g"
| "gap_remarks (Remark i # g) = i # gap_remarks g"

fun remarks :: "piece list \<Rightarrow> string list" where
  "remarks [] = []"
| "remarks (Gap g # ps) = gap_remarks g @ remarks ps"
| "remarks (p # ps) = remarks ps"

fun item_remarks :: "item \<Rightarrow> string list" where
  "item_remarks (Statement ps) = remarks ps"
| "item_remarks (Block pre items lst) =
     remarks pre @ concat (map item_remarks items) @ remarks lst"

text \<open>
  The nodes a document stands for. A statement with no text is no node, one that starts
  with \<^verbatim>\<open>@\<close> is an at-rule with no body, any other is a declaration; a block is a rule
  with the text of its prelude, trimmed, as selector, and the nodes of its body. No node
  is made for a comment.
\<close>

definition statement_nodes :: "string \<Rightarrow> AstNode list" where
  "statement_nodes tx =
     (if trim tx = [] then []
      else if starts_with [AT_SIGN] tx then [parseAtRule tx]
      else [parseDeclaration tx])"

fun item_nodes :: "item \<Rightarrow> AstNode list" where
  "item_nodes (Statement ps) = statement_nodes (text_of [] ps)"
| "item_nodes (Block pre items lst) =
     [Rule [] (trim (text_of [] pre))
        (concat (map item_nodes items) @ statement_nodes (text_of [] lst))]"

text \<open>
  The \<^verbatim>\<open>Comment\<close> nodes of the license comments among a list of comments, in order.
\<close>

definition licenses :: "string list \<Rightarrow> AstNode list" where
  "licenses rs = map (Comment []) (filter is_license rs)"









text \<open>
  A document that ends inside blocks. A frame is what is written at one level up to a
  \<^verbatim>\<open>{\<close> that is never closed: the items before the block, and its prelude. The frames
  are listed from the outermost; the prelude of a frame is the text of its pieces,
  trimmed.
\<close>

type_synonym frame = "item list \<times> piece list"




definition frame_prelude :: "frame \<Rightarrow> string" where
  "frame_prelude f = trim (text_of [] (snd f))"

subsection \<open>The value of a custom property\<close>

text \<open>
  The value of a custom property as it is written: characters, escaped characters,
  closed comments, closed quoted literals, and blocks \<^verbatim>\<open>{ ... }\<close> of the same. A
  character stands for itself; it is not a backslash, a quote or a curly bracket, it is
  not a \<^verbatim>\<open>;\<close> outside every block (\<open>outside\<close>), and a \<^verbatim>\<open>/\<close> is not followed
  by \<^verbatim>\<open>*\<close>.
\<close>

datatype raw = RawChar char | RawEscape char | RawComment string | RawString char string
  | RawBlock "raw list"

fun print_raw :: "raw \<Rightarrow> string" where
  "print_raw (RawChar c) = [c]"
| "print_raw (RawEscape c) = [BACKSLASH, c]"
| "print_raw (RawComment i) = [SLASH, ASTERISK] @ i @ [ASTERISK, SLASH]"
| "print_raw (RawString q t) = [q] @ t @ [q]"
| "print_raw (RawBlock rs) = [OPEN_CURLY] @ concat (map print_raw rs) @ [CLOSE_CURLY]"

definition print_raws :: "raw list \<Rightarrow> string" where
  "print_raws rs = concat (map print_raw rs)"


text \<open>
  A text without the white space at its start, and without the white space at its end.
  What follows the block in a value: without the white space at its end, and without a
  trailing \<^verbatim>\<open>!important\<close>, which marks the declaration as important.
\<close>

definition ltrim :: "string \<Rightarrow> string" where
  "ltrim s = dropWhile is_space s"




subsection \<open>Examples\<close>





















subsection \<open>Notions of the proofs\<close>

text \<open>
  The state of the scan after a gap (\<open>gap_text\<close> is the text so far), after the items
  of a list (their nodes are added to the block being read and their license comments are
  hoisted) and after a frame (its block is open).
\<close>

definition gap_text :: "string \<Rightarrow> gap_item list \<Rightarrow> string" where
  "gap_text b g = (if list_ex is_blank g then spaced b else b)"

definition add_nodes :: "AstNode list \<Rightarrow> ParseState \<Rightarrow> ParseState" where
  "add_nodes ns st = foldl (\<lambda>s n. add_node n s) st ns"

definition absorb :: "AstNode list \<Rightarrow> string list \<Rightarrow> ParseState \<Rightarrow> ParseState" where
  "absorb ns rs st =
     (foldl (\<lambda>s n. add_node n s) st ns)\<lparr>licenseComments := licenseComments st @ licenses rs\<rparr>"

definition enter :: "frame \<Rightarrow> ParseState \<Rightarrow> ParseState" where
  "enter f st =
     open_block
       ((absorb (concat (map item_nodes (fst f))) (concat (map item_remarks (fst f))) st)
          \<lparr>buffer := text_of [] (snd f),
             licenseComments := licenseComments st
                @ licenses (concat (map item_remarks (fst f)) @ remarks (snd f))\<rparr>)"


chapter \<open>Verification\<close>

section \<open>Line tables\<close>


lemma scan_lines_eq:
  "scan_lines i cs table =
     table @ map (\<lambda>j. int (i + j) + 1) (filter (\<lambda>j. cs ! j = LINE_BREAK) [0..<length cs])"
proof (induction cs arbitrary: i table)
  case Nil
  then show ?case by simp
next
  case (Cons c cs)
  have upt: "[0..<length (c # cs)] = 0 # map Suc [0..<length cs]"
    by (simp add: upt_conv_Cons map_Suc_upt del: upt_Suc)
  show ?case
    unfolding upt using Cons [of "i + 1"]
    by (simp add: filter_map o_def)
qed

lemma createLineTable_eq:
  "createLineTable s = 0 # map (\<lambda>j. int j + 1) (filter (\<lambda>j. s ! j = LINE_BREAK) [0..<length s])"
  by (simp add: createLineTable_def scan_lines_eq)

lemma sorted_wrt_filter_upt: "sorted_wrt (<) (filter P [0..<n])"
  by (rule sorted_wrt_filter) (simp add: sorted_wrt_upt)

lemma createLineTable_sorted: "sorted_wrt (<) (createLineTable s)"
  unfolding createLineTable_eq
  by (auto simp: sorted_wrt_map intro: sorted_wrt_mono_rel [OF _ sorted_wrt_filter_upt])

lemma createLineTable_nonempty: "createLineTable s \<noteq> []"
  by (simp add: createLineTable_eq)

lemma createLineTable_hd: "createLineTable s ! 0 = 0"
  by (simp add: createLineTable_eq)

lemma search_probes_in_bounds:
  "ln + count \<le> length table \<Longrightarrow> set probes \<subseteq> {..<length table}
   \<Longrightarrow> set (snd (search table offset ln count probes)) \<subseteq> {..<length table}"
proof (induction table offset ln count probes rule: search.induct)
  case (1 table offset ln count probes)
  show ?case
  proof (cases "count > 0")
    case False
    then show ?thesis using "1.prems" by (simp add: search.simps)
  next
    case True
    define mid where "mid = count div 2"
    define i where "i = ln + mid"
    have i: "i < length table" using True "1.prems" by (simp add: i_def mid_def)
    show ?thesis
    proof (cases "entry_le table i offset")
      case le: True
      have "set (snd (search table offset (i + 1) (count - mid - 1) (probes @ [i]))) \<subseteq> {..<length table}"
        using "1.IH"(1) [OF True mid_def i_def le] "1.prems" i True
        by (simp add: i_def mid_def)
      then show ?thesis using True le
        by (subst search.simps) (simp add: Let_def i_def mid_def)
    next
      case nle: False
      have "set (snd (search table offset ln mid (probes @ [i]))) \<subseteq> {..<length table}"
        using "1.IH"(2) [OF True mid_def i_def nle] "1.prems" i True
        by (simp add: i_def mid_def)
      then show ?thesis using True nle
        by (subst search.simps) (simp add: Let_def i_def mid_def)
    qed
  qed
qed

lemma search_partition:
  assumes "sorted_wrt (<) table"
      and "ln + count \<le> length table"
      and "\<forall>j<ln. table ! j \<le> offset"
      and "\<forall>j. ln + count \<le> j \<and> j < length table \<longrightarrow> offset < table ! j"
  shows "fst (search table offset ln count probes) \<le> length table
       \<and> (\<forall>j < fst (search table offset ln count probes). table ! j \<le> offset)
       \<and> (\<forall>j. fst (search table offset ln count probes) \<le> j \<and> j < length table \<longrightarrow> offset < table ! j)"
  using assms
proof (induction table offset ln count probes rule: search.induct)
  case (1 table offset ln count probes)
  show ?case
  proof (cases "count > 0")
    case False
    then show ?thesis using "1.prems" by (simp add: search.simps)
  next
    case True
    define mid where "mid = count div 2"
    define i where "i = ln + mid"
    have i: "i < length table" using True "1.prems" by (simp add: i_def mid_def)
    have at: "table_at table (int i) = Some (table ! i)" using i by (simp add: table_at_def)
    show ?thesis
    proof (cases "entry_le table i offset")
      case le: True
      then have v: "table ! i \<le> offset" by (simp add: entry_le_def at)
      have below: "\<forall>j<i + 1. table ! j \<le> offset"
      proof (intro allI impI)
        fix j assume "j < i + 1"
        then consider "j = i" | "j < i" by linarith
        then show "table ! j \<le> offset"
        proof cases
          case 1 then show ?thesis using v by simp
        next
          case 2
          then have "table ! j < table ! i" using "1.prems"(1) i by (simp add: sorted_wrt_nth_less)
          then show ?thesis using v by simp
        qed
      qed
      have eq: "i + 1 + (count - mid - 1) = ln + count" using True by (simp add: i_def mid_def)
      have "fst (search table offset (i + 1) (count - mid - 1) (probes @ [i])) \<le> length table
       \<and> (\<forall>j < fst (search table offset (i + 1) (count - mid - 1) (probes @ [i])). table ! j \<le> offset)
       \<and> (\<forall>j. fst (search table offset (i + 1) (count - mid - 1) (probes @ [i])) \<le> j \<and> j < length table \<longrightarrow> offset < table ! j)"
        using "1.IH"(1) [OF True mid_def i_def le "1.prems"(1) _ below] "1.prems"(2,4) eq
        by simp
      then show ?thesis using True le
        by (subst (1 2 3) search.simps) (simp add: Let_def i_def mid_def)
    next
      case nle: False
      then have v: "offset < table ! i" by (simp add: entry_le_def at)
      have above: "\<forall>j. ln + mid \<le> j \<and> j < length table \<longrightarrow> offset < table ! j"
      proof (intro allI impI)
        fix j assume j: "ln + mid \<le> j \<and> j < length table"
        then consider "j = i" | "i < j" unfolding i_def by linarith
        then show "offset < table ! j"
        proof cases
          case 1 then show ?thesis using v by simp
        next
          case 2
          then have "table ! i < table ! j" using "1.prems"(1) j by (simp add: sorted_wrt_nth_less)
          then show ?thesis using v by simp
        qed
      qed
      have "fst (search table offset ln mid (probes @ [i])) \<le> length table
       \<and> (\<forall>j < fst (search table offset ln mid (probes @ [i])). table ! j \<le> offset)
       \<and> (\<forall>j. fst (search table offset ln mid (probes @ [i])) \<le> j \<and> j < length table \<longrightarrow> offset < table ! j)"
        using "1.IH"(2) [OF True mid_def i_def nle "1.prems"(1) _ "1.prems"(3) above] i
        by (simp add: i_def)
      then show ?thesis using True nle
        by (subst (1 2 3) search.simps) (simp add: Let_def i_def mid_def)
    qed
  qed
qed


lemma find_pos_sorted:
  assumes sorted: "sorted_wrt (<) table" and ne: "table \<noteq> []" and first: "table ! 0 \<le> offset"
  shows "\<exists>k<length table. table ! k \<le> offset
           \<and> (\<forall>j<length table. table ! j \<le> offset \<longrightarrow> j \<le> k)
           \<and> find_pos table offset = \<lparr>line = int k + 1, column = Num (offset - table ! k + 1)\<rparr>
           \<and> find_reads table offset = map int (snd (search table offset 0 (length table) [])) @ [int k]"
proof -
  define r where "r = fst (search table offset 0 (length table) [])"
  have part: "r \<le> length table \<and> (\<forall>j<r. table ! j \<le> offset)
       \<and> (\<forall>j. r \<le> j \<and> j < length table \<longrightarrow> offset < table ! j)"
    unfolding r_def by (rule search_partition [OF sorted]) simp_all
  have r_pos: "0 < r"
  proof (rule ccontr)
    assume "\<not> 0 < r"
    then have "offset < table ! 0" using part ne by simp
    then show False using first by simp
  qed
  define k where "k = r - 1"
  have k: "k < length table" "r = k + 1" using r_pos part by (auto simp: k_def)
  have le: "table ! k \<le> offset" using part k by simp
  have greatest: "\<forall>j<length table. table ! j \<le> offset \<longrightarrow> j \<le> k"
  proof (intro allI impI)
    fix j assume "j < length table" "table ! j \<le> offset"
    then have "\<not> r \<le> j" using part by auto
    then show "j \<le> k" using k by simp
  qed
  have at: "table_at table (int r - 1) = Some (table ! k)"
    using k by (simp add: table_at_def)
  have pos: "find_pos table offset = \<lparr>line = int k + 1, column = Num (offset - table ! k + 1)\<rparr>"
    using at k(2) by (simp add: find_pos_def Let_def r_def [symmetric])
  have reads: "find_reads table offset = map int (snd (search table offset 0 (length table) [])) @ [int k]"
    using k(2) by (simp add: find_reads_def Let_def r_def [symmetric])
  show ?thesis using k(1) le greatest pos reads by blast
qed

lemma find_pos_createLineTable:
  assumes "0 \<le> offset"
  shows "\<exists>k<length (createLineTable s). createLineTable s ! k \<le> offset
           \<and> (\<forall>j<length (createLineTable s). createLineTable s ! j \<le> offset \<longrightarrow> j \<le> k)
           \<and> find_pos (createLineTable s) offset =
                \<lparr>line = int k + 1, column = Num (offset - createLineTable s ! k + 1)\<rparr>
           \<and> find_reads (createLineTable s) offset =
                map int (snd (search (createLineTable s) offset 0 (length (createLineTable s)) [])) @ [int k]"
  by (rule find_pos_sorted [OF createLineTable_sorted createLineTable_nonempty])
     (simp add: createLineTable_hd assms)

lemma greatest_start_Max:
  assumes sorted: "sorted_wrt (<) table" and k: "k < length table" and le: "table ! k \<le> offset"
      and greatest: "\<forall>j<length table. table ! j \<le> offset \<longrightarrow> j \<le> k"
  shows "Max {s \<in> set table. s \<le> offset} = table ! k"
proof (rule Max_eqI)
  show "finite {s \<in> set table. s \<le> offset}" by simp
  show "table ! k \<in> {s \<in> set table. s \<le> offset}" using k le by simp
  fix y assume "y \<in> {s \<in> set table. s \<le> offset}"
  then obtain j where j: "j < length table" "table ! j = y" "y \<le> offset"
    by (auto simp: in_set_conv_nth)
  then have "j \<le> k" using greatest by simp
  then have "j = k \<or> j < k" by linarith
  then show "y \<le> table ! k"
  proof
    assume "j = k" then show ?thesis using j by simp
  next
    assume "j < k"
    then have "table ! j < table ! k" using sorted k by (simp add: sorted_wrt_nth_less)
    then show ?thesis using j by simp
  qed
qed


lemma example_table: "createLineTable example_buffer = [0, 2, 5]"
  by (simp add: createLineTable_def example_buffer_def LINE_BREAK_def)

lemma find_example:
  "find_pos [0, 2, 5] 0 = \<lparr>line = 1, column = Num 1\<rparr>
   \<and> find_pos [0, 2, 5] 2 = \<lparr>line = 2, column = Num 1\<rparr>
   \<and> find_pos [0, 2, 5] 5 = \<lparr>line = 3, column = Num 1\<rparr>"
  by (simp add: find_pos_def search.simps entry_le_def table_at_def)

text \<open>
  Claim C3. For the table of a source text (built by \<^verbatim>\<open>createLineTable\<close> or by
  \<^verbatim>\<open>computeLineTable\<close>) and an offset that is not negative, so in particular for every
  offset within the text, \<^verbatim>\<open>find(offset)\<close> returns the one-based number of the line
  whose recorded start is the greatest start not above the offset, and the column
  \<open>offset - start + 1\<close>. For the buffer \<^verbatim>\<open>"a\nbb\nccc"\<close>, \<^verbatim>\<open>find(0)\<close> is line 1,
  column 1, \<^verbatim>\<open>find(2)\<close> is line 2, column 1, and \<^verbatim>\<open>find(5)\<close> is line 3, column 1.
\<close>

theorem find_greatest_line_start:
  assumes "0 \<le> offset" and "table = createLineTable source \<or> table = computeLineTable source"
  shows "(\<exists>k<length table.
            table ! k = Max {s \<in> set table. s \<le> offset}
          \<and> find_pos table offset = \<lparr>line = int k + 1, column = Num (offset - table ! k + 1)\<rparr>)
       \<and> find_pos (createLineTable example_buffer) 0 = \<lparr>line = 1, column = Num 1\<rparr>
       \<and> find_pos (createLineTable example_buffer) 2 = \<lparr>line = 2, column = Num 1\<rparr>
       \<and> find_pos (createLineTable example_buffer) 5 = \<lparr>line = 3, column = Num 1\<rparr>"
proof -
  have t: "table = createLineTable source"
    using assms(2) by (auto simp: createLineTable_def computeLineTable_def)
  obtain k where k: "k < length table" "table ! k \<le> offset"
      "\<forall>j<length table. table ! j \<le> offset \<longrightarrow> j \<le> k"
      "find_pos table offset = \<lparr>line = int k + 1, column = Num (offset - table ! k + 1)\<rparr>"
    using find_pos_createLineTable [OF assms(1), of source] unfolding t by blast
  have "Max {s \<in> set table. s \<le> offset} = table ! k"
    using greatest_start_Max [OF _ k(1,2,3)] createLineTable_sorted t by simp
  then show ?thesis using k(1,4) by (auto simp: example_table find_example)
qed

theorem find_greatest_line_start_witness:
  "(\<exists>k<length (createLineTable example_buffer).
       createLineTable example_buffer ! k = Max {s \<in> set (createLineTable example_buffer). s \<le> 3}
     \<and> find_pos (createLineTable example_buffer) 3 =
         \<lparr>line = int k + 1, column = Num (3 - createLineTable example_buffer ! k + 1)\<rparr>)
   \<and> find_pos (createLineTable example_buffer) 3 = \<lparr>line = 2, column = Num 2\<rparr>"
proof -
  have "find_pos (createLineTable example_buffer) 3 = \<lparr>line = 2, column = Num 2\<rparr>"
    by (simp add: example_table find_pos_def search.simps entry_le_def table_at_def)
  then show ?thesis
    using find_greatest_line_start [of 3 "createLineTable example_buffer" example_buffer]
    by simp
qed

text \<open>
  Claim C10. For the table of any text and any integer offset that is not negative, at or
  beyond the end of the text included, \<^verbatim>\<open>find\<close> returns (its loop is a total function,
  accepted with the measure \<^verbatim>\<open>count\<close>), every index at which it reads the table lies
  inside the table, which is never empty and holds the entry 0, and the position it
  returns has a line and a column of at least 1. An offset at or beyond the last recorded
  line start is put on the last line; its column is counted from that line's start, which
  is stated for the offsets below \<open>2 ^ 53\<close>, where the subtraction of the code is exact.
\<close>

theorem find_reads_in_bounds:
  assumes "0 \<le> offset" and "table = createLineTable source \<or> table = computeLineTable source"
  shows "table \<noteq> [] \<and> 0 \<in> set table
       \<and> set (find_reads table offset) \<subseteq> {0..<int (length table)}
       \<and> (\<exists>l c. find_pos table offset = \<lparr>line = l, column = Num c\<rparr> \<and> 1 \<le> l \<and> 1 \<le> c)
       \<and> (last table \<le> offset \<longrightarrow>
            line (find_pos table offset) = int (length table)
          \<and> (offset < 2 ^ 53 \<longrightarrow>
               column (find_pos table offset) = Num (offset - last table + 1)))"
proof -
  have T: "table = createLineTable source"
    using assms(2) by (auto simp: createLineTable_def computeLineTable_def)
  have ne: "table \<noteq> []" and hd0: "table ! 0 = 0"
    by (simp_all add: T createLineTable_nonempty createLineTable_hd)
  obtain k where k: "k < length table" "table ! k \<le> offset"
      "\<forall>j<length table. table ! j \<le> offset \<longrightarrow> j \<le> k"
      "find_pos table offset = \<lparr>line = int k + 1, column = Num (offset - table ! k + 1)\<rparr>"
      "find_reads table offset = map int (snd (search table offset 0 (length table) [])) @ [int k]"
    using find_pos_createLineTable [OF assms(1), of source] unfolding T by blast
  have zero: "0 \<in> set table" using ne hd0 by (metis length_greater_0_conv nth_mem)
  have probes: "set (snd (search table offset 0 (length table) [])) \<subseteq> {..<length table}"
    by (rule search_probes_in_bounds) simp_all
  have reads: "set (find_reads table offset) \<subseteq> {0..<int (length table)}"
    using probes k(1) by (auto simp: k(5))
  have pos: "\<exists>l c. find_pos table offset = \<lparr>line = l, column = Num c\<rparr> \<and> 1 \<le> l \<and> 1 \<le> c"
    using k(2,4) by simp
  have beyond: "find_pos table offset =
      \<lparr>line = int (length table), column = Num (offset - last table + 1)\<rparr>"
    if "last table \<le> offset"
  proof -
    have "table ! (length table - 1) \<le> offset" using that ne by (simp add: last_conv_nth)
    then have "length table - 1 \<le> k" using k(3) ne by simp
    then have "k = length table - 1" using k(1) by linarith
    moreover have "int (length table - 1) + 1 = int (length table)"
      using ne by (cases table) simp_all
    ultimately show ?thesis using k(4) ne by (simp add: last_conv_nth)
  qed
  show ?thesis using ne zero reads pos beyond by simp
qed

theorem find_reads_in_bounds_witness:
  "(0::int) \<le> 100
   \<and> set (find_reads (createLineTable example_buffer) 100) \<subseteq> {0..<3}
   \<and> find_reads (createLineTable example_buffer) 100 = [1, 2, 2]
   \<and> last (createLineTable example_buffer) \<le> 100
   \<and> find_pos (createLineTable example_buffer) 100 = \<lparr>line = 3, column = Num 96\<rparr>"
proof -
  have reads: "find_reads (createLineTable example_buffer) 100 = [1, 2, 2]"
    by (simp add: example_table find_reads_def search.simps entry_le_def table_at_def)
  show ?thesis
    using find_reads_in_bounds [of 100 "createLineTable example_buffer" example_buffer] reads
    by (simp add: example_table)
qed

lemma CR_not_LF: "CARRIAGE_RETURN \<noteq> LINE_BREAK"
  by (simp add: CARRIAGE_RETURN_def LINE_BREAK_def)

lemma scan_lines_append:
  "scan_lines i cs (ts @ us) = ts @ scan_lines i cs us"
  by (induction cs arbitrary: i us) auto

lemma scan_lines_shift:
  "scan_lines (i + d) cs [] = map (\<lambda>v. v + int d) (scan_lines i cs [])"
proof (induction cs arbitrary: i)
  case Nil
  then show ?case by simp
next
  case (Cons c cs)
  have a: "scan_lines (i + d + 1) cs [x] = [x] @ scan_lines (i + d + 1) cs []" for x
    using scan_lines_append [of "i + d + 1" cs "[x]" "[]"] by simp
  have b: "scan_lines (i + 1) cs [x] = [x] @ scan_lines (i + 1) cs []" for x
    using scan_lines_append [of "i + 1" cs "[x]" "[]"] by simp
  have c: "scan_lines (i + 1 + d) cs [] = map (\<lambda>v. v + int d) (scan_lines (i + 1) cs [])"
    by (rule Cons)
  have d: "i + 1 + d = i + d + 1" by simp
  show ?case
    by (simp only: scan_lines.simps a b c [unfolded d] append_Nil split: if_splits) simp
qed

lemma createLineTable_rest: "createLineTable s = 0 # scan_lines 0 s []"
  using scan_lines_append [of 0 s "[0]" "[]"] by (simp add: createLineTable_def)

lemma rest_Cons:
  "scan_lines 0 (c # cs) [] =
     (if c = LINE_BREAK then [1] else []) @ map (\<lambda>v. v + 1) (scan_lines 0 cs [])"
proof -
  have a: "scan_lines (Suc 0) cs [x] = [x] @ scan_lines (Suc 0) cs []" for x
    using scan_lines_append [of "Suc 0" cs "[x]" "[]"] by simp
  have b: "scan_lines (Suc 0) cs [] = map (\<lambda>v. v + 1) (scan_lines 0 cs [])"
    using scan_lines_shift [of 0 1 cs] by simp
  show ?thesis by (simp add: a b)
qed

lemma rest_positive: "v \<in> set (scan_lines 0 s []) \<Longrightarrow> 1 \<le> v"
proof (induction s arbitrary: v)
  case Nil
  then show ?case by simp
next
  case (Cons c cs)
  then show ?case unfolding rest_Cons by (auto split: if_splits) fastforce+
qed

lemma length_rest: "length (scan_lines 0 s []) = length (filter (\<lambda>c. c = LINE_BREAK) s)"
  by (induction s) (simp_all add: rest_Cons del: scan_lines.simps(2))

lemma rest_crlf:
  "length (scan_lines 0 (crlf s) []) = length (scan_lines 0 s [])
   \<and> (\<forall>k<length (scan_lines 0 s []).
         scan_lines 0 (crlf s) [] ! k = scan_lines 0 s [] ! k + int k + 1)"
proof (induction s)
  case Nil
  then show ?case by simp
next
  case (Cons c cs)
  show ?case
  proof (cases "c = LINE_BREAK")
    case True
    have l: "scan_lines 0 (crlf (c # cs)) [] = 2 # map (\<lambda>v. v + 2) (scan_lines 0 (crlf cs) [])"
      using True CR_not_LF by (simp add: rest_Cons del: scan_lines.simps(2))
    have r: "scan_lines 0 (c # cs) [] = 1 # map (\<lambda>v. v + 1) (scan_lines 0 cs [])"
      using True by (simp add: rest_Cons del: scan_lines.simps(2))
    show ?thesis unfolding l r using Cons
      by (auto simp: nth_Cons split: nat.splits)
  next
    case False
    have l: "scan_lines 0 (crlf (c # cs)) [] = map (\<lambda>v. v + 1) (scan_lines 0 (crlf cs) [])"
      using False by (simp add: rest_Cons del: scan_lines.simps(2))
    have r: "scan_lines 0 (c # cs) [] = map (\<lambda>v. v + 1) (scan_lines 0 cs [])"
      using False by (simp add: rest_Cons del: scan_lines.simps(2))
    show ?thesis unfolding l r using Cons by auto
  qed
qed

lemma rest_le_iff:
  "k < length (scan_lines 0 s []) \<Longrightarrow>
   scan_lines 0 s [] ! k \<le> int i \<longleftrightarrow> k < length (filter (\<lambda>c. c = LINE_BREAK) (take i s))"
proof (induction s arbitrary: i k)
  case Nil
  then show ?case by simp
next
  case (Cons c cs)
  show ?case
  proof (cases i)
    case 0
    have "1 \<le> scan_lines 0 (c # cs) [] ! k"
      using Cons.prems rest_positive nth_mem by blast
    then show ?thesis using 0 by simp
  next
    case (Suc i')
    show ?thesis
    proof (cases "c = LINE_BREAK")
      case True
      have r: "scan_lines 0 (c # cs) [] = 1 # map (\<lambda>v. v + 1) (scan_lines 0 cs [])"
        using True by (simp add: rest_Cons del: scan_lines.simps(2))
      show ?thesis
      proof (cases k)
        case 0
        then show ?thesis unfolding r using True Suc by simp
      next
        case (Suc k')
        then have "k' < length (scan_lines 0 cs [])" using Cons.prems unfolding r by simp
        from Cons.IH [OF this, of i'] show ?thesis
          unfolding r using True \<open>i = Suc i'\<close> Suc \<open>k' < length (scan_lines 0 cs [])\<close> by simp
      qed
    next
      case False
      have r: "scan_lines 0 (c # cs) [] = map (\<lambda>v. v + 1) (scan_lines 0 cs [])"
        using False by (simp add: rest_Cons del: scan_lines.simps(2))
      have "k < length (scan_lines 0 cs [])" using Cons.prems unfolding r by simp
      from Cons.IH [OF this, of i'] show ?thesis
        unfolding r using False Suc \<open>k < length (scan_lines 0 cs [])\<close> by simp
    qed
  qed
qed


lemma find_pos_unique:
  assumes sorted: "sorted_wrt (<) table" and n: "n < length table" and le: "table ! n \<le> offset"
      and greatest: "\<forall>j<length table. table ! j \<le> offset \<longrightarrow> j \<le> n"
  shows "find_pos table offset = \<lparr>line = int n + 1, column = Num (offset - table ! n + 1)\<rparr>"
proof -
  have ne: "table \<noteq> []" using n by auto
  have "table ! 0 \<le> table ! n"
    using sorted n by (cases "n = 0") (auto dest: sorted_wrt_nth_less [of _ table 0 n])
  then have first: "table ! 0 \<le> offset" using le by simp
  obtain k where k: "k < length table" "table ! k \<le> offset"
      "\<forall>j<length table. table ! j \<le> offset \<longrightarrow> j \<le> k"
      "find_pos table offset = \<lparr>line = int k + 1, column = Num (offset - table ! k + 1)\<rparr>"
    using find_pos_sorted [OF sorted ne first] by blast
  have "k = n" using k(1,2,3) n le greatest by (simp add: order_antisym)
  then show ?thesis using k(4) by simp
qed

lemma table_le_iff:
  assumes "k < length (createLineTable s)"
  shows "createLineTable s ! k \<le> int i
           \<longleftrightarrow> k \<le> length (filter (\<lambda>c. c = LINE_BREAK) (take i s))"
proof (cases k)
  case 0
  then show ?thesis by (simp add: createLineTable_rest)
next
  case (Suc k')
  then have "k' < length (scan_lines 0 s [])" using assms by (simp add: createLineTable_rest)
  from rest_le_iff [OF this, of i] show ?thesis using Suc by (simp add: createLineTable_rest) linarith
qed

lemma count_take_le:
  "length (filter P (take i s)) \<le> length (filter P s)"
proof -
  have "length (filter P s) = length (filter P (take i s)) + length (filter P (drop i s))"
    by (metis append_take_drop_id filter_append length_append)
  then show ?thesis by simp
qed

lemma find_pos_counts_line_breaks:
  "find_pos (createLineTable s) (int i) =
     \<lparr>line = int (length (filter (\<lambda>c. c = LINE_BREAK) (take i s))) + 1,
      column = Num (int i
                 - createLineTable s ! length (filter (\<lambda>c. c = LINE_BREAK) (take i s)) + 1)\<rparr>"
proof (rule find_pos_unique [OF createLineTable_sorted])
  let ?n = "length (filter (\<lambda>c. c = LINE_BREAK) (take i s))"
  show n: "?n < length (createLineTable s)"
    using count_take_le [of "\<lambda>c. c = LINE_BREAK" i s]
    by (simp add: createLineTable_rest length_rest)
  show "createLineTable s ! ?n \<le> int i"
    using table_le_iff [OF n, of i] by simp
  show "\<forall>j<length (createLineTable s). createLineTable s ! j \<le> int i \<longrightarrow> j \<le> ?n"
    using table_le_iff by blast
qed

lemma table_crlf:
  "length (createLineTable (crlf s)) = length (createLineTable s)
   \<and> (\<forall>k<length (createLineTable s).
         createLineTable (crlf s) ! k = createLineTable s ! k + int k)"
  using rest_crlf [of s] by (auto simp: createLineTable_rest nth_Cons split: nat.splits)

lemma find_pos_crlf:
  assumes d: "d \<le> 1"
  shows "find_pos (createLineTable (crlf s)) (int (crlf_offset s i + d)) =
     \<lparr>line = int (length (filter (\<lambda>c. c = LINE_BREAK) (take i s))) + 1,
      column = Num (int i + int d
                 - createLineTable s ! length (filter (\<lambda>c. c = LINE_BREAK) (take i s)) + 1)\<rparr>"
proof -
  define n where "n = length (filter (\<lambda>c. c = LINE_BREAK) (take i s))"
  define T where "T = createLineTable s"
  define T' where "T' = createLineTable (crlf s)"
  have len: "length T' = length T" and nth: "\<And>k. k < length T \<Longrightarrow> T' ! k = T ! k + int k"
    using table_crlf [of s] by (auto simp: T_def T'_def)
  have n: "n < length T"
    using count_take_le [of "\<lambda>c. c = LINE_BREAK" i s]
    by (simp add: createLineTable_rest length_rest n_def T_def)
  have le: "T ! n \<le> int i" using table_le_iff [of n s i] n by (simp add: n_def T_def)
  have off: "int (crlf_offset s i) = int i + int n"
    by (simp add: crlf_offset_def n_def)
  have "find_pos T' (int i + int n + int d) =
          \<lparr>line = int n + 1, column = Num (int i + int n + int d - T' ! n + 1)\<rparr>"
  proof (rule find_pos_unique)
    show "sorted_wrt (<) T'" by (simp add: T'_def createLineTable_sorted)
    show "n < length T'" using n len by simp
    show "T' ! n \<le> int i + int n + int d" using le nth [OF n] by simp
    show "\<forall>j<length T'. T' ! j \<le> int i + int n + int d \<longrightarrow> j \<le> n"
    proof (intro allI impI)
      fix j assume j: "j < length T'" and jle: "T' ! j \<le> int i + int n + int d"
      show "j \<le> n"
      proof (rule ccontr)
        assume "\<not> j \<le> n"
        then have nj: "n < j" by simp
        have "\<not> T ! j \<le> int i"
          using table_le_iff [of j s i] j len nj by (simp add: n_def T_def)
        then have "int i + int j < T ! j + int j" by simp
        then have "int i + int n + 1 < T' ! j" using nth [of j] j len nj by simp
        then show False using jle d by simp
      qed
    qed
  qed
  then show ?thesis
    using nth [OF n]
    by (simp add: off n_def [symmetric] T_def [symmetric] T'_def [symmetric] algebra_simps)
qed

lemma crlf_offset_Suc:
  "crlf_offset (c # cs) (Suc i) = (if c = LINE_BREAK then 2 else 1) + crlf_offset cs i"
  by (simp add: crlf_offset_def)

lemma crlf_nth:
  "i < length s \<Longrightarrow>
   (if s ! i = LINE_BREAK
    then crlf s ! crlf_offset s i = CARRIAGE_RETURN \<and> crlf s ! (crlf_offset s i + 1) = LINE_BREAK
    else crlf s ! crlf_offset s i = s ! i)"
proof (induction s arbitrary: i)
  case Nil
  then show ?case by simp
next
  case (Cons c cs)
  show ?case
  proof (cases i)
    case 0
    then show ?thesis by (simp add: crlf_offset_def)
  next
    case (Suc i')
    then have "i' < length cs" using Cons.prems by simp
    from Cons.IH [OF this] show ?thesis
      unfolding Suc crlf_offset_Suc by (auto simp: nth_append split: if_splits)
  qed
qed

text \<open>
  Claim C4. The table of a text holds the offset 0 and, in order, the offset after each
  line break \<^verbatim>\<open>\n\<close>, and nothing else: no other character, a carriage return included,
  starts a line. The \<^verbatim>\<open>\r\n\<close> version of a text has as many lines as the text, and a
  lookup at the offset that corresponds to an offset of the text gives the same line (and
  column). The carriage return put before a line break is on the line that the line break
  ends, and so is the line break after it.
\<close>

theorem line_breaks_alone_start_lines:
  "createLineTable source =
     0 # map (\<lambda>j. int j + 1) (filter (\<lambda>j. source ! j = LINE_BREAK) [0..<length source])
   \<and> computeLineTable source = createLineTable source
   \<and> length (createLineTable (crlf source)) = length (createLineTable source)
   \<and> find_pos (createLineTable (crlf source)) (int (crlf_offset source i)) =
       find_pos (createLineTable source) (int i)
   \<and> (i < length source \<and> source ! i \<noteq> LINE_BREAK \<longrightarrow>
         crlf source ! crlf_offset source i = source ! i)
   \<and> (i < length source \<and> source ! i = LINE_BREAK \<longrightarrow>
         crlf source ! crlf_offset source i = CARRIAGE_RETURN
       \<and> crlf source ! (crlf_offset source i + 1) = LINE_BREAK
       \<and> line (find_pos (createLineTable (crlf source)) (int (crlf_offset source i + 1))) =
           line (find_pos (createLineTable source) (int i)))"
proof -
  have same: "find_pos (createLineTable (crlf source)) (int (crlf_offset source i)) =
       find_pos (createLineTable source) (int i)"
    using find_pos_crlf [of 0 source i] find_pos_counts_line_breaks [of source i] by simp
  have lf: "line (find_pos (createLineTable (crlf source)) (int (crlf_offset source i + 1))) =
           line (find_pos (createLineTable source) (int i))"
    using find_pos_crlf [of 1 source i] find_pos_counts_line_breaks [of source i] by simp
  have starts: "createLineTable source =
     0 # map (\<lambda>j. int j + 1) (filter (\<lambda>j. source ! j = LINE_BREAK) [0..<length source])"
    by (rule createLineTable_eq)
  have older: "computeLineTable source = createLineTable source"
    by (simp add: computeLineTable_def createLineTable_def)
  have len: "length (createLineTable (crlf source)) = length (createLineTable source)"
    using table_crlf [of source] by blast
  have other: "i < length source \<and> source ! i \<noteq> LINE_BREAK \<longrightarrow>
         crlf source ! crlf_offset source i = source ! i"
    using crlf_nth [of i source] by auto
  have pair: "i < length source \<and> source ! i = LINE_BREAK \<longrightarrow>
         crlf source ! crlf_offset source i = CARRIAGE_RETURN
       \<and> crlf source ! (crlf_offset source i + 1) = LINE_BREAK"
    using crlf_nth [of i source] by auto
  show ?thesis
    using starts older len same other pair lf by blast
qed

theorem line_breaks_alone_start_lines_witness:
  "crlf example_buffer = crlf_example
   \<and> crlf_offset example_buffer 4 = 5
   \<and> example_buffer ! 4 = LINE_BREAK
   \<and> find_pos (createLineTable example_buffer) 4 = \<lparr>line = 2, column = Num 3\<rparr>
   \<and> find_pos (createLineTable crlf_example) 5 = \<lparr>line = 2, column = Num 3\<rparr>
   \<and> crlf_example ! 5 = CARRIAGE_RETURN
   \<and> crlf_example ! 6 = LINE_BREAK
   \<and> line (find_pos (createLineTable crlf_example) 6) = 2"
proof -
  have c: "crlf example_buffer = crlf_example"
    by (simp add: example_buffer_def crlf_example_def LINE_BREAK_def CARRIAGE_RETURN_def)
  have o: "crlf_offset example_buffer 4 = 5"
    by (simp add: crlf_offset_def example_buffer_def LINE_BREAK_def)
  have e: "4 < length example_buffer \<and> example_buffer ! 4 = LINE_BREAK"
    by (simp add: example_buffer_def LINE_BREAK_def)
  have f: "find_pos (createLineTable example_buffer) (int 4) = \<lparr>line = 2, column = Num 3\<rparr>"
    by (simp add: example_table find_pos_def search.simps entry_le_def table_at_def)
  note th = line_breaks_alone_start_lines [of example_buffer 4]
  have same: "find_pos (createLineTable (crlf example_buffer)) (int (crlf_offset example_buffer 4)) =
       find_pos (createLineTable example_buffer) (int 4)"
    using th by blast
  have pair: "crlf example_buffer ! crlf_offset example_buffer 4 = CARRIAGE_RETURN
       \<and> crlf example_buffer ! (crlf_offset example_buffer 4 + 1) = LINE_BREAK
       \<and> line (find_pos (createLineTable (crlf example_buffer))
                 (int (crlf_offset example_buffer 4 + 1))) =
           line (find_pos (createLineTable example_buffer) (int 4))"
    using th e by blast
  show ?thesis
    using same pair f e by (simp add: c o)
qed

section \<open>Source maps\<close>

lemma array_filter_remove_duplicate: "array_filter remove_duplicate lst ms = []"
  by (induction ms arbitrary: lst) (auto simp: remove_duplicate_def split: option.splits)

lemma set_sort_insert: "set (sort_insert cmp x ys) = insert x (set ys)"
  by (induction ys) auto

lemma set_array_sort: "set (array_sort cmp xs) = set xs"
  by (induction xs) (simp_all add: array_sort_def set_sort_insert)

lemma set_array_filter: "set (array_filter callback s xs) \<subseteq> set xs"
  by (induction xs arbitrary: s) (auto split: prod.splits)

lemma emit_mappings_null:
  "\<forall>m\<in>set ms. originalSource m = None \<and> name m = None
   \<Longrightarrow> \<forall>m\<in>set (emit_mappings ot gt groups ms). originalSource m = None \<and> name m = None"
  by (induction ot gt groups ms rule: emit_mappings.induct) (auto simp: Let_def split: option.splits)

lemma emit_mappings_records:
  "emit_mappings ot gt groups ms = ms @ concat (map (start_end_records ot gt) groups)"
  by (induction ot gt groups ms rule: emit_mappings.induct)
     (simp_all add: start_end_records_def decoded_def Let_def split: option.splits)

lemma comment_emitted:
  "emitted comment_source comment_css comment_ast =
     [\<lparr>generatedLine = 1, generatedColumn = Num 1, originalLine = 1,
       originalColumn = Num 1, originalSource = None, name = None\<rparr>,
      \<lparr>generatedLine = 1, generatedColumn = Num 11, originalLine = 1,
       originalColumn = Num 11, originalSource = None, name = None\<rparr>]"
  by code_simp

text \<open>
  Claim C1 (not met by the code). The callback that removes duplicates ends with a bare
  \<^verbatim>\<open>return\<close> where it keeps a mapping, so \<^verbatim>\<open>filter\<close> reads \<^verbatim>\<open>undefined\<close> and drops
  the mapping: the returned list is empty for every input. For the comment
  \<^verbatim>\<open>/*! foo */\<close> two records are pushed, at the generated positions 1:1 and 1:11,
  neither a duplicate of the other, and none of them is in the returned list.
\<close>

theorem createSourceMap_drops_every_mapping:
  "mappings (createSourceMap original_text generated_text ast) = []
   \<and> map (\<lambda>m. (generatedLine m, generatedColumn m))
         (emitted comment_source comment_css comment_ast) = [(1, Num 1), (1, Num 11)]
   \<and> mappings (createSourceMap comment_source comment_css comment_ast) = []"
  by (simp add: createSourceMap_def Let_def array_filter_remove_duplicate comment_emitted)

text \<open>
  Claim C2 (met by source-map.ts, not by the older source-maps.ts). The loop of
  \<^verbatim>\<open>createSourceMap\<close> in source-map.ts pushes, for every group in turn, the two records
  \<open>start_end_records\<close> and nothing for a group that is \<^verbatim>\<open>undefined\<close> or has no
  \<^verbatim>\<open>dst\<close>. The loop of the older \<^verbatim>\<open>createSourceMap\<close> pushes two records as well, but
  pairs the original start with the original end and the generated start with the
  generated end: for the parameters of \<^verbatim>\<open>@layer foo,     bar;\<close> (source 1:1 to 1:1,
  generated 1:8 to 1:16) it pushes 1:1 with 1:1 and 1:8 with 1:16, where the claim asks
  for 1:1 with 1:8 and 1:1 with 1:16.
\<close>

theorem createSourceMap_legacy_pairs_start_with_end:
  "emitted original_text generated_text ast =
     concat (map (start_end_records (createLineTable original_text)
                                    (createLineTable generated_text))
                 (walk ast collect_groups []))
   \<and> createSourceMap_legacy layer_source layer_css layer_ast =
      [\<lparr>original = \<lparr>line = 1, column = Num 1\<rparr>, generated = \<lparr>line = 1, column = Num 1\<rparr>\<rparr>,
       \<lparr>original = \<lparr>line = 1, column = Num 1\<rparr>, generated = \<lparr>line = 1, column = Num 7\<rparr>\<rparr>,
       \<lparr>original = \<lparr>line = 1, column = Num 1\<rparr>, generated = \<lparr>line = 1, column = Num 1\<rparr>\<rparr>,
       \<lparr>original = \<lparr>line = 1, column = Num 8\<rparr>, generated = \<lparr>line = 1, column = Num 16\<rparr>\<rparr>]
   \<and> map (\<lambda>m. (line (original m), column (original m), line (generated m), column (generated m)))
         (createSourceMap_legacy layer_source layer_css layer_ast)
      \<noteq> map (\<lambda>m. (originalLine m, originalColumn m, generatedLine m, generatedColumn m))
           (emitted layer_source layer_css layer_ast)"
proof -
  have new: "emitted original_text generated_text ast =
     concat (map (start_end_records (createLineTable original_text)
                                    (createLineTable generated_text))
                 (walk ast collect_groups []))"
    by (simp add: emitted_def Let_def emit_mappings_records)
  have legacy: "createSourceMap_legacy layer_source layer_css layer_ast =
      [\<lparr>original = \<lparr>line = 1, column = Num 1\<rparr>, generated = \<lparr>line = 1, column = Num 1\<rparr>\<rparr>,
       \<lparr>original = \<lparr>line = 1, column = Num 1\<rparr>, generated = \<lparr>line = 1, column = Num 7\<rparr>\<rparr>,
       \<lparr>original = \<lparr>line = 1, column = Num 1\<rparr>, generated = \<lparr>line = 1, column = Num 1\<rparr>\<rparr>,
       \<lparr>original = \<lparr>line = 1, column = Num 8\<rparr>, generated = \<lparr>line = 1, column = Num 16\<rparr>\<rparr>]"
    by code_simp
  have current: "map (\<lambda>m. (originalLine m, originalColumn m, generatedLine m, generatedColumn m))
           (emitted layer_source layer_css layer_ast) =
      [(1, Num 1, 1, Num 1), (1, Num 1, 1, Num 7), (1, Num 1, 1, Num 8), (1, Num 1, 1, Num 16)]"
    by code_simp
  show ?thesis
    unfolding legacy current using new by simp
qed

text \<open>
  Claim C9. The map returned by \<^verbatim>\<open>createSourceMap\<close> has no file, one source with no url
  and no content that is not ignored, and a list of mappings, each a record of the six
  fields of \<open>DecodedMapping\<close>: every returned mapping is one of the records the loop has
  pushed, and every pushed record has no original source and no name.
\<close>

theorem createSourceMap_shape:
  "file (createSourceMap original_text generated_text ast) = None
   \<and> sources (createSourceMap original_text generated_text ast) =
       [\<lparr>url = None, content = None, ignore = False\<rparr>]
   \<and> set (mappings (createSourceMap original_text generated_text ast))
       \<subseteq> set (emitted original_text generated_text ast)
   \<and> (\<forall>m \<in> set (emitted original_text generated_text ast).
         originalSource m = None \<and> name m = None)"
proof -
  have "set (mappings (createSourceMap original_text generated_text ast))
          \<subseteq> set (array_sort compare_generated (emitted original_text generated_text ast))"
    by (simp add: createSourceMap_def Let_def set_array_filter)
  moreover have "\<forall>m \<in> set (emitted original_text generated_text ast).
         originalSource m = None \<and> name m = None"
    unfolding emitted_def Let_def by (rule emit_mappings_null) simp
  ultimately show ?thesis
    by (simp add: set_array_sort) (simp add: createSourceMap_def Let_def)
qed

theorem createSourceMap_shape_witness:
  "\<lparr>generatedLine = 1, generatedColumn = Num 11, originalLine = 1,
     originalColumn = Num 11, originalSource = None, name = None\<rparr>
     \<in> set (emitted comment_source comment_css comment_ast)
   \<and> file (createSourceMap comment_source comment_css comment_ast) = None
   \<and> sources (createSourceMap comment_source comment_css comment_ast) =
       [\<lparr>url = None, content = None, ignore = False\<rparr>]"
  using createSourceMap_shape [of comment_source comment_css comment_ast]
  by (simp add: comment_emitted)

section \<open>The translation map\<close>

lemma translate_entries_lookup:
  "distinct (map fst entries) \<Longrightarrow>
   translate_entries ot gt entries tr field =
     (case map_of entries field of
        None \<Rightarrow> tr field
      | Some offs \<Rightarrow>
          Some (find_pos ot (fst (src offs)), find_pos ot (snd (src offs)),
                (case dst offs of Some d \<Rightarrow> Some (find_pos gt (fst d)) | None \<Rightarrow> None),
                (case dst offs of Some d \<Rightarrow> Some (find_pos gt (snd d)) | None \<Rightarrow> None)))"
proof (induction entries arbitrary: tr)
  case Nil
  then show ?case by simp
next
  case (Cons e entries)
  obtain f offs where e: "e = (f, offs)" by (cases e)
  have notin: "f \<notin> fst ` set entries" and dist: "distinct (map fst entries)"
    using Cons.prems by (simp_all add: e)
  show ?case
  proof (cases "field = f")
    case True
    then have "map_of entries field = None" using notin by (simp add: map_of_eq_None_iff)
    then show ?thesis using Cons.IH [OF dist] True by (simp add: e)
  next
    case False
    then show ?thesis using Cons.IH [OF dist] by (simp add: e split: option.splits)
  qed
qed

text \<open>
  Claim C5. For every pair of texts and every node (an object has each of its keys once),
  the function returned by \<^verbatim>\<open>createTranslationMap\<close> maps each named field of the node's
  offsets to a 4-tuple: the positions, in the original text's line table, of the start and
  of the end of \<^verbatim>\<open>src\<close>, then the positions, in the generated text's line table, of the
  start and of the end of \<^verbatim>\<open>dst\<close>, which are absent exactly when \<^verbatim>\<open>dst\<close> is absent.
  It maps no other name.
\<close>

theorem createTranslationMap_fields:
  assumes "distinct (map fst (offsets_of node))" and "(field, offs) \<in> set (offsets_of node)"
  shows "(\<exists>gs ge. createTranslationMap original_text generated_text node field =
              Some (find_pos (createLineTable original_text) (fst (src offs)),
                    find_pos (createLineTable original_text) (snd (src offs)), gs, ge)
           \<and> (gs = None \<longleftrightarrow> dst offs = None) \<and> (ge = None \<longleftrightarrow> dst offs = None)
           \<and> (\<forall>d. dst offs = Some d \<longrightarrow>
                  gs = Some (find_pos (createLineTable generated_text) (fst d))
                \<and> ge = Some (find_pos (createLineTable generated_text) (snd d))))
       \<and> dom (createTranslationMap original_text generated_text node) = fst ` set (offsets_of node)"
proof -
  have look: "createTranslationMap original_text generated_text node f =
     (case map_of (offsets_of node) f of
        None \<Rightarrow> None
      | Some offs \<Rightarrow>
          Some (find_pos (createLineTable original_text) (fst (src offs)),
                find_pos (createLineTable original_text) (snd (src offs)),
                (case dst offs of Some d \<Rightarrow> Some (find_pos (createLineTable generated_text) (fst d))
                                | None \<Rightarrow> None),
                (case dst offs of Some d \<Rightarrow> Some (find_pos (createLineTable generated_text) (snd d))
                                | None \<Rightarrow> None)))" for f
    by (simp add: createTranslationMap_def Let_def translate_entries_lookup [OF assms(1)])
  have field: "map_of (offsets_of node) field = Some offs"
    using assms by simp
  have "dom (createTranslationMap original_text generated_text node) = dom (map_of (offsets_of node))"
    by (auto simp: look dom_def split: option.splits)
  then have dom: "dom (createTranslationMap original_text generated_text node) = fst ` set (offsets_of node)"
    by (simp add: dom_map_of_conv_image_fst)
  show ?thesis
    using dom by (cases "dst offs") (simp_all add: look field)
qed

theorem createTranslationMap_fields_witness:
  "createTranslationMap layer_source layer_css (hd layer_ast) ''params'' =
     Some (\<lparr>line = 1, column = Num 1\<rparr>, \<lparr>line = 1, column = Num 1\<rparr>,
           Some \<lparr>line = 1, column = Num 8\<rparr>, Some \<lparr>line = 1, column = Num 16\<rparr>)
   \<and> createTranslationMap layer_source layer_css
        (AtRule [(''body'', \<lparr>src = (0, 0), dst = None\<rparr>)] ''@layer'' ''foo, bar'' None) ''body'' =
     Some (\<lparr>line = 1, column = Num 1\<rparr>, \<lparr>line = 1, column = Num 1\<rparr>, None, None)"
proof -
  have t: "createLineTable layer_source = [0]" "createLineTable layer_css = [0, 17]"
    by code_simp+
  have f: "find_pos [0] 0 = \<lparr>line = 1, column = Num 1\<rparr>"
     "find_pos [0, 17] 7 = \<lparr>line = 1, column = Num 8\<rparr>"
     "find_pos [0, 17] 15 = \<lparr>line = 1, column = Num 16\<rparr>"
    by code_simp+
  show ?thesis
    using createTranslationMap_fields
            [of "hd layer_ast" "''params''" "\<lparr>src = (0, 0), dst = Some (7, 15)\<rparr>"
                layer_source layer_css]
          createTranslationMap_fields
            [of "AtRule [(''body'', \<lparr>src = (0, 0), dst = None\<rparr>)] ''@layer'' ''foo, bar'' None"
                "''body''" "\<lparr>src = (0, 0), dst = None\<rparr>" layer_source layer_css]
    by (auto simp: layer_ast_def t f)
qed

section \<open>The parser\<close>


subsection \<open>Comments and quoted literals\<close>






subsection \<open>The scan of pieces\<close>












lemma spaced_idem [simp]: "spaced (spaced b) = spaced b"
  by (simp add: spaced_def is_space_def)

lemma spaced_Nil [simp]: "spaced [] = []"
  by (simp add: spaced_def)

lemma spaced_eq_Nil [simp]: "spaced b = [] \<longleftrightarrow> b = []"
  by (simp add: spaced_def)


lemma gap_text_simps [simp]:
  "gap_text b [] = b"
  "gap_text b (Blank c # g) = spaced b"
  "gap_text b (Remark i # g) = gap_text b g"
  "gap_text (spaced b) g = spaced b"
  by (simp_all add: gap_text_def)

lemma gap_text_eq_Nil [simp]: "gap_text b g = [] \<longleftrightarrow> b = []"
  by (simp add: gap_text_def)

lemma licenses_simps [simp]:
  "licenses [] = []"
  "licenses (a @ b) = licenses a @ licenses b"
  by (simp_all add: licenses_def)





lemma text_of_eq_Nil: "text_of b ps = [] \<Longrightarrow> b = []"
  by (induction b ps rule: text_of.induct) (auto split: if_splits)


subsection \<open>The scan of items\<close>

lemma absorb_add_nodes:
  "absorb ns rs st = (add_nodes ns st)\<lparr>licenseComments := licenseComments st @ licenses rs\<rparr>"
  by (simp add: absorb_def add_nodes_def)

lemma add_nodes_simps [simp]:
  "add_nodes [] st = st"
  "add_nodes (n # ns) st = add_nodes ns (add_node n st)"
  "add_nodes (a @ b) st = add_nodes b (add_nodes a st)"
  by (simp_all add: add_nodes_def)

lemma add_node_fields [simp]:
  "buffer (add_node n st) = buffer st"
  "licenseComments (add_node n st) = licenseComments st"
  "map fst (stack (add_node n st)) = map fst (stack st)"
  by (simp_all add: add_node_def split: list.splits prod.splits)


lemma add_node_update [simp]:
  "add_node n (st\<lparr>buffer := b\<rparr>) = (add_node n st)\<lparr>buffer := b\<rparr>"
  "add_node n (st\<lparr>licenseComments := l\<rparr>) = (add_node n st)\<lparr>licenseComments := l\<rparr>"
  by (simp_all add: add_node_def split: list.splits prod.splits)

lemma add_nodes_fields [simp]:
  "buffer (add_nodes ns st) = buffer st"
  "licenseComments (add_nodes ns st) = licenseComments st"
  "map fst (stack (add_nodes ns st)) = map fst (stack st)"
  by (induction ns arbitrary: st) simp_all


lemma add_nodes_update [simp]:
  "add_nodes ns (st\<lparr>buffer := b\<rparr>) = (add_nodes ns st)\<lparr>buffer := b\<rparr>"
  "add_nodes ns (st\<lparr>licenseComments := l\<rparr>) = (add_nodes ns st)\<lparr>licenseComments := l\<rparr>"
  by (induction ns arbitrary: st) simp_all

lemma absorb_fields [simp]:
  "buffer (absorb ns rs st) = buffer st"
  "licenseComments (absorb ns rs st) = licenseComments st @ licenses rs"
  "stack (absorb ns rs st) = stack (add_nodes ns st)"
  "root (absorb ns rs st) = root (add_nodes ns st)"
  by (simp_all add: absorb_add_nodes)


lemma absorb_Nil [simp]: "absorb [] [] st = st"
  by (simp add: absorb_add_nodes)





lemma print_items_simps [simp]:
  "print_items [] = []"
  "print_items (it # items) = print_item it @ print_items items"
  "print_items (a @ b) = print_items a @ print_items b"
  by (simp_all add: print_items_def)





subsection \<open>Whole documents\<close>






lemma uncomment_gap [simp]:
  "list_all wf_gap_item g \<Longrightarrow> list_all wf_gap_item (filter is_blank g)"
  "list_ex is_blank (filter is_blank g) = list_ex is_blank g"
  "gap_remarks (filter is_blank g) = []"
  by (induction g rule: gap_remarks.induct) simp_all




subsection \<open>Open blocks and open literals\<close>

lemma enter_fields [simp]:
  "buffer (enter f st) = []"
  "map fst (stack (enter f st)) = frame_prelude f # map fst (stack st)"
  by (simp_all add: enter_def open_block_def frame_prelude_def)









subsection \<open>Custom properties\<close>

lemma print_raws_simps [simp]:
  "print_raws [] = []"
  "print_raws (r # rs) = print_raw r @ print_raws rs"
  "print_raws (a @ b) = print_raws a @ print_raws b"
  by (simp_all add: print_raws_def)












lemma ltrim_idem [simp]: "ltrim (ltrim s) = ltrim s"
  unfolding ltrim_def by (induction s) auto













lemma print_raws_chars [simp]: "print_raws (map RawChar w) = w"
  by (induction w) simp_all











end
